theory Spec2Isabelle
  imports Main "HOL-Library.FSet" "HOL-Library.Product_Lexorder"
begin

section \<open>Data model of \<^verbatim>\<open>minesweeper.py\<close>\<close>

text \<open>
  A cell is a Python tuple \<^verbatim>\<open>(i, j)\<close> of unbounded integers. A Python \<^verbatim>\<open>set\<close> of
  cells is a finite set. \<^verbatim>\<open>Sentence\<close> has the fields \<^verbatim>\<open>cells\<close> and \<^verbatim>\<open>count\<close>;
  its \<^verbatim>\<open>__eq__\<close> compares both fields, which is equality of the record, and
  \<^verbatim>\<open>!=\<close> is its negation.
\<close>

type_synonym cell = "int \<times> int"

record sentence =
  cells :: "cell fset"
  count :: int

text \<open>
  The fields of \<^verbatim>\<open>MinesweeperAI\<close>. The knowledge base is a Python list of
  sentences. Every \<^verbatim>\<open>Sentence\<close> copies the cells it is built from
  (\<^verbatim>\<open>set(cells)\<close>) and no sentence object is stored twice, so the list of values
  carries the whole state.
\<close>

record ai =
  height :: int
  width :: int
  moves_made :: "cell fset"
  mines :: "cell fset"
  safes :: "cell fset"
  knowledge :: "sentence list"

definition new_ai :: "int \<Rightarrow> int \<Rightarrow> ai" where
  "new_ai h w =
     \<lparr>height = h, width = w, moves_made = {||}, mines = {||}, safes = {||}, knowledge = []\<rparr>"

datatype error = IndexError

section \<open>Sentence\<close>

text \<open>\<^verbatim>\<open>known_mines\<close> and \<^verbatim>\<open>known_safes\<close> return the cells or, by falling off the
  end, \<^verbatim>\<open>None\<close>.\<close>

definition known_mines :: "sentence \<Rightarrow> cell fset option" where
  "known_mines s = (if int (fcard (cells s)) = count s then Some (cells s) else None)"

definition known_safes :: "sentence \<Rightarrow> cell fset option" where
  "known_safes s = (if count s = 0 then Some (cells s) else None)"

definition sentence_mark_mine :: "cell \<Rightarrow> sentence \<Rightarrow> sentence" where
  "sentence_mark_mine c s =
     (if c |\<in>| cells s then s\<lparr>cells := cells s |-| {|c|}, count := count s - 1\<rparr> else s)"

definition sentence_mark_safe :: "cell \<Rightarrow> sentence \<Rightarrow> sentence" where
  "sentence_mark_safe c s =
     (if c |\<in>| cells s then s\<lparr>cells := cells s |-| {|c|}\<rparr> else s)"

section \<open>MinesweeperAI: marking\<close>

text \<open>\<^verbatim>\<open>mark_mine\<close> and \<^verbatim>\<open>mark_safe\<close> add the cell to the global set and call the
  sentence's method on every sentence of the knowledge base, in place.\<close>

definition mark_mine :: "cell \<Rightarrow> ai \<Rightarrow> ai" where
  "mark_mine c a =
     a\<lparr>mines := finsert c (mines a), knowledge := map (sentence_mark_mine c) (knowledge a)\<rparr>"

definition mark_safe :: "cell \<Rightarrow> ai \<Rightarrow> ai" where
  "mark_safe c a =
     a\<lparr>safes := finsert c (safes a), knowledge := map (sentence_mark_safe c) (knowledge a)\<rparr>"

text \<open>
  The body of the loop of \<^verbatim>\<open>mark_cells\<close> for the sentence at index \<open>i\<close>. The test
  \<^verbatim>\<open>if check_mines:\<close> fails on \<^verbatim>\<open>None\<close> and on the empty set. The cells are
  frozen before the marking loop runs; a frozenset is iterated in an order Python does
  not fix, here in the order of the sorted list (the result is the same for every order,
  lemma \<open>fold_mark_mine\<close> below). \<^verbatim>\<open>known_safes\<close> is asked of the sentence as the
  marking of the mines left it.
\<close>

definition mark_cells_body :: "nat \<Rightarrow> ai \<times> bool \<Rightarrow> ai \<times> bool" where
  "mark_cells_body i st =
     (let (a, changed) = st;
          (a1, changed1) =
            (case known_mines (knowledge a ! i) of
               None \<Rightarrow> (a, changed)
             | Some check_mines \<Rightarrow>
                 if check_mines \<noteq> {||}
                 then (fold mark_mine (sorted_list_of_fset check_mines) a, True)
                 else (a, changed))
      in (case known_safes (knowledge a1 ! i) of
            None \<Rightarrow> (a1, changed1)
          | Some check_safes \<Rightarrow>
              if check_safes \<noteq> {||}
              then (fold mark_safe (sorted_list_of_fset check_safes) a1, True)
              else (a1, changed1)))"

lemma length_fold_mark_mine [simp]:
  "length (knowledge (fold mark_mine xs a)) = length (knowledge a)"
  by (induction xs arbitrary: a) (simp_all add: mark_mine_def)

lemma length_fold_mark_safe [simp]:
  "length (knowledge (fold mark_safe xs a)) = length (knowledge a)"
  by (induction xs arbitrary: a) (simp_all add: mark_safe_def)

lemma length_mark_cells_body [simp]:
  "length (knowledge (fst (mark_cells_body i (a, ch)))) = length (knowledge a)"
  by (simp add: mark_cells_body_def Let_def split: option.split)

text \<open>The loop \<^verbatim>\<open>for sentence in self.knowledge\<close> of \<^verbatim>\<open>mark_cells\<close>: the list
  iterator reads index \<open>i\<close> as long as it is below the current length.\<close>

function mark_cells_loop :: "nat \<Rightarrow> ai \<times> bool \<Rightarrow> ai \<times> bool" where
  "mark_cells_loop i st =
     (if i < length (knowledge (fst st))
      then mark_cells_loop (Suc i) (mark_cells_body i st)
      else st)"
  by pat_completeness auto
termination
  by (relation "measure (\<lambda>(i, st). length (knowledge (fst st)) - i)")
     (auto simp: split_paired_all)

declare mark_cells_loop.simps [simp del]

section \<open>MinesweeperAI: resolution\<close>

text \<open>The test of \<^verbatim>\<open>infer_knowledge\<close> on a pair:
  \<^verbatim>\<open>sentence2 != sentence1\<close> and \<^verbatim>\<open>sentence2.cells.issubset(sentence1.cells)\<close>.\<close>

definition subset_pair :: "sentence \<Rightarrow> sentence \<Rightarrow> bool" where
  "subset_pair sentence1 sentence2 \<longleftrightarrow>
     sentence2 \<noteq> sentence1 \<and> cells sentence2 |\<subseteq>| cells sentence1"

definition new_sentence :: "sentence \<Rightarrow> sentence \<Rightarrow> sentence" where
  "new_sentence sentence1 sentence2 =
     \<lparr>cells = cells sentence1 |-| cells sentence2, count = count sentence1 - count sentence2\<rparr>"

text \<open>
  The inner loop \<^verbatim>\<open>for sentence2 in self.knowledge\<close>. The body appends to the
  list the loop iterates, and the list iterator of Python reads index \<open>j\<close> as long as
  it is below the length the list has then: appended sentences are visited too. A loop
  that does not return has the value \<open>None\<close> (the interpreter runs it until the list
  exhausts the memory).
\<close>

partial_function (option) infer_inner ::
  "sentence \<Rightarrow> nat \<Rightarrow> sentence list \<Rightarrow> bool \<Rightarrow> (sentence list \<times> bool) option" where
  "infer_inner sentence1 j kb subset_found =
     (if j < length kb
      then (if subset_pair sentence1 (kb ! j)
            then infer_inner sentence1 (Suc j) (kb @ [new_sentence sentence1 (kb ! j)]) True
            else infer_inner sentence1 (Suc j) kb subset_found)
      else Some (kb, subset_found))"

text \<open>
  The outer loop \<^verbatim>\<open>for sentence1 in self.knowledge\<close>, over the same growing list.
  \<^verbatim>\<open>subset_found\<close> is set before the loop and never reset in it, so it is carried
  from one \<^verbatim>\<open>sentence1\<close> to the next. The result is the list, the registered
  \<^verbatim>\<open>changed_sentences\<close> and \<^verbatim>\<open>changed\<close>.
\<close>

partial_function (option) infer_outer ::
  "nat \<Rightarrow> sentence list \<Rightarrow> bool \<Rightarrow> sentence list \<Rightarrow> bool
     \<Rightarrow> (sentence list \<times> sentence list \<times> bool) option" where
  "infer_outer i kb subset_found changed_sentences changed =
     (if i < length kb
      then (case infer_inner (kb ! i) 0 kb subset_found of
              None \<Rightarrow> None
            | Some (kb', subset_found') \<Rightarrow>
                if subset_found'
                then infer_outer (Suc i) kb' subset_found' (changed_sentences @ [kb ! i]) True
                else infer_outer (Suc i) kb' subset_found' changed_sentences changed)
      else Some (kb, changed_sentences, changed))"

text \<open>\<^verbatim>\<open>if sentence in self.knowledge: self.knowledge.remove(sentence)\<close>: membership
  and removal both compare with \<^verbatim>\<open>__eq__\<close>, and \<^verbatim>\<open>remove\<close> deletes the first
  match.\<close>

definition remove_changed :: "sentence \<Rightarrow> sentence list \<Rightarrow> sentence list" where
  "remove_changed s kb = (if s \<in> set kb then remove1 s kb else kb)"

text \<open>
  One resolution pass of \<^verbatim>\<open>infer_knowledge\<close>: the two loops and the removal of the
  registered sentences, up to the call of \<^verbatim>\<open>mark_cells\<close>.
\<close>

definition infer_pass :: "ai \<Rightarrow> (ai \<times> bool) option" where
  "infer_pass a =
     (case infer_outer 0 (knowledge a) False [] False of
        None \<Rightarrow> None
      | Some (kb, changed_sentences, changed) \<Rightarrow>
          Some (a\<lparr>knowledge := fold remove_changed changed_sentences kb\<rparr>, changed))"

section \<open>MinesweeperAI: the two phases\<close>

text \<open>
  \<^verbatim>\<open>mark_cells\<close> and \<^verbatim>\<open>infer_knowledge\<close> call each other in tail position; they
  are one recursive function over the phase that runs. Both return at once when
  \<^verbatim>\<open>changed\<close> is false. The \<^verbatim>\<open>print\<close> calls write to the standard output only
  and are left out.
\<close>

datatype phase = MarkCells | InferKnowledge

partial_function (option) engine :: "phase \<Rightarrow> bool \<Rightarrow> ai \<Rightarrow> ai option" where
  "engine ph changed a =
     (if \<not> changed then Some a
      else (case ph of
              MarkCells \<Rightarrow>
                engine InferKnowledge (snd (mark_cells_loop 0 (a, False)))
                  (fst (mark_cells_loop 0 (a, False)))
            | InferKnowledge \<Rightarrow>
                (case infer_pass a of
                   None \<Rightarrow> None
                 | Some (a', changed') \<Rightarrow> engine MarkCells changed' a')))"

definition mark_cells :: "bool \<Rightarrow> ai \<Rightarrow> ai option" where
  "mark_cells changed a = engine MarkCells changed a"

definition infer_knowledge :: "bool \<Rightarrow> ai \<Rightarrow> ai option" where
  "infer_knowledge changed a = engine InferKnowledge changed a"

section \<open>MinesweeperAI: adding knowledge and choosing moves\<close>

text \<open>
  Step 3 of \<^verbatim>\<open>add_knowledge\<close>: the two \<^verbatim>\<open>range\<close> loops around the cell. A cell
  already in \<^verbatim>\<open>moves_made\<close>, \<^verbatim>\<open>mines\<close> or \<^verbatim>\<open>safes\<close> is skipped, then a cell
  off the board.
\<close>

definition nearby_cells :: "ai \<Rightarrow> cell \<Rightarrow> cell list" where
  "nearby_cells a c =
     concat (map (\<lambda>i. concat (map (\<lambda>j.
         if (i, j) |\<in>| moves_made a \<or> (i, j) |\<in>| mines a \<or> (i, j) |\<in>| safes a then []
         else if 0 \<le> i \<and> i < height a \<and> 0 \<le> j \<and> j < width a then [(i, j)]
         else [])
       [snd c - 1 .. snd c + 1]))
       [fst c - 1 .. fst c + 1])"

text \<open>Steps 1 to 3 of \<^verbatim>\<open>add_knowledge\<close>: the state in which \<^verbatim>\<open>mark_cells(True)\<close>
  is called.\<close>

definition add_sentence :: "ai \<Rightarrow> cell \<Rightarrow> int \<Rightarrow> ai" where
  "add_sentence a c n =
     (let a1 = a\<lparr>moves_made := finsert c (moves_made a)\<rparr>;
          a2 = mark_safe c a1
      in a2\<lparr>knowledge := knowledge a2 @ [\<lparr>cells = fset_of_list (nearby_cells a2 c), count = n\<rparr>]\<rparr>)"

definition add_knowledge :: "ai \<Rightarrow> cell \<Rightarrow> int \<Rightarrow> ai option" where
  "add_knowledge a c n = mark_cells True (add_sentence a c n)"

text \<open>The candidates in the order of the two \<^verbatim>\<open>range\<close> loops over the board.\<close>

definition board_cells :: "ai \<Rightarrow> cell list" where
  "board_cells a =
     concat (map (\<lambda>i. map (\<lambda>j. (i, j)) [0 .. width a - 1]) [0 .. height a - 1])"

definition safe_list :: "ai \<Rightarrow> cell list" where
  "safe_list a =
     filter (\<lambda>c. c |\<in>| safes a \<and> c |\<notin>| moves_made a \<and> c |\<notin>| mines a) (board_cells a)"

definition random_list :: "ai \<Rightarrow> cell list" where
  "random_list a = filter (\<lambda>c. c |\<notin>| moves_made a \<and> c |\<notin>| mines a) (board_cells a)"

text \<open>
  \<^verbatim>\<open>random.choice(seq)\<close> raises \<^verbatim>\<open>IndexError\<close> on an empty sequence and returns
  \<^verbatim>\<open>seq[k]\<close> for an index \<open>k\<close> below the length otherwise; the draw of the generator
  is the argument \<open>r\<close>.
\<close>

definition random_choice :: "nat \<Rightarrow> 'a list \<Rightarrow> error + 'a" where
  "random_choice r xs = (if xs = [] then Inl IndexError else Inr (xs ! (r mod length xs)))"

text \<open>
  Both move functions return their result and the state of the agent they leave.
  \<^verbatim>\<open>make_safe_move\<close> returns a cell or \<^verbatim>\<open>None\<close>; \<^verbatim>\<open>make_random_move\<close> returns
  what \<^verbatim>\<open>random.choice\<close> returns or raises.
\<close>

definition make_safe_move :: "nat \<Rightarrow> ai \<Rightarrow> (error + cell option) \<times> ai" where
  "make_safe_move r a =
     (if length (safe_list a) \<noteq> 0
      then (case random_choice r (safe_list a) of
              Inl e \<Rightarrow> (Inl e, a)
            | Inr c \<Rightarrow> (Inr (Some c), a))
      else (Inr None, a))"

definition make_random_move :: "nat \<Rightarrow> ai \<Rightarrow> (error + cell) \<times> ai" where
  "make_random_move r a = (random_choice r (random_list a), a)"

section \<open>Marking a set of cells\<close>

text \<open>
  The loops \<^verbatim>\<open>for mine in fcheck_mines: self.mark_mine(mine)\<close> and
  \<^verbatim>\<open>for safe in fcheck_safes: self.mark_safe(safe)\<close> in closed form: what they do
  depends on the set only, not on the order in which it is iterated.
\<close>

definition sentence_mark_mines :: "cell fset \<Rightarrow> sentence \<Rightarrow> sentence" where
  "sentence_mark_mines S s =
     s\<lparr>cells := cells s |-| S, count := count s - int (fcard (cells s |\<inter>| S))\<rparr>"

definition sentence_mark_safes :: "cell fset \<Rightarrow> sentence \<Rightarrow> sentence" where
  "sentence_mark_safes S s = s\<lparr>cells := cells s |-| S\<rparr>"

lemma fcard_inter_finsert:
  "c |\<in>| A \<Longrightarrow> fcard (A |\<inter>| finsert c S) = Suc (fcard ((A |-| {|c|}) |\<inter>| S))"
proof -
  assume c: "c |\<in>| A"
  have "A |\<inter>| finsert c S = finsert c ((A |-| {|c|}) |\<inter>| S)"
    using c by auto
  moreover have "c |\<notin>| (A |-| {|c|}) |\<inter>| S" by simp
  ultimately show ?thesis by (simp add: fcard_finsert_disjoint)
qed

lemma fcard_inter_finsert_notin:
  "c |\<notin>| A \<Longrightarrow> A |\<inter>| finsert c S = A |\<inter>| S"
  by auto

lemma sentence_mark_mines_step:
  "sentence_mark_mines S (sentence_mark_mine c s) = sentence_mark_mines (finsert c S) s"
proof (cases "c |\<in>| cells s")
  case True
  have "cells s |-| {|c|} |-| S = cells s |-| finsert c S" by auto
  moreover have "count s - 1 - int (fcard ((cells s |-| {|c|}) |\<inter>| S))
      = count s - int (fcard (cells s |\<inter>| finsert c S))"
    by (simp only: fcard_inter_finsert [OF True])
  ultimately show ?thesis
    using True by (simp only: sentence_mark_mines_def sentence_mark_mine_def if_True)
      (simp del: finter_finsert_right)
next
  case False
  then have "cells s |-| S = cells s |-| finsert c S" by auto
  then show ?thesis
    using False
    by (simp add: sentence_mark_mines_def sentence_mark_mine_def)
qed

lemma sentence_mark_safes_step:
  "sentence_mark_safes S (sentence_mark_safe c s) = sentence_mark_safes (finsert c S) s"
proof -
  have "cells s |-| {|c|} |-| S = cells s |-| finsert c S" by auto
  moreover have "c |\<notin>| cells s \<Longrightarrow> cells s |-| S = cells s |-| finsert c S" by auto
  ultimately show ?thesis
    by (simp add: sentence_mark_safes_def sentence_mark_safe_def)
qed

lemma sentence_mark_mines_empty [simp]: "sentence_mark_mines {||} s = s"
  by (simp add: sentence_mark_mines_def)

lemma sentence_mark_safes_empty [simp]: "sentence_mark_safes {||} s = s"
  by (simp add: sentence_mark_safes_def)

lemma fold_mark_mine:
  "fold mark_mine xs a =
     a\<lparr>mines := fset_of_list xs |\<union>| mines a,
       knowledge := map (sentence_mark_mines (fset_of_list xs)) (knowledge a)\<rparr>"
proof (induction xs arbitrary: a)
  case Nil
  show ?case by simp
next
  case (Cons x xs)
  have "fold mark_mine (x # xs) a = fold mark_mine xs (mark_mine x a)" by simp
  also have "\<dots> = (mark_mine x a)\<lparr>mines := fset_of_list xs |\<union>| mines (mark_mine x a),
       knowledge := map (sentence_mark_mines (fset_of_list xs)) (knowledge (mark_mine x a))\<rparr>"
    by (rule Cons.IH)
  also have "\<dots> = a\<lparr>mines := fset_of_list (x # xs) |\<union>| mines a,
       knowledge := map (sentence_mark_mines (fset_of_list (x # xs))) (knowledge a)\<rparr>"
    by (simp add: mark_mine_def sentence_mark_mines_step comp_def)
  finally show ?case .
qed

lemma fold_mark_safe:
  "fold mark_safe xs a =
     a\<lparr>safes := fset_of_list xs |\<union>| safes a,
       knowledge := map (sentence_mark_safes (fset_of_list xs)) (knowledge a)\<rparr>"
proof (induction xs arbitrary: a)
  case Nil
  show ?case by simp
next
  case (Cons x xs)
  have "fold mark_safe (x # xs) a = fold mark_safe xs (mark_safe x a)" by simp
  also have "\<dots> = (mark_safe x a)\<lparr>safes := fset_of_list xs |\<union>| safes (mark_safe x a),
       knowledge := map (sentence_mark_safes (fset_of_list xs)) (knowledge (mark_safe x a))\<rparr>"
    by (rule Cons.IH)
  also have "\<dots> = a\<lparr>safes := fset_of_list (x # xs) |\<union>| safes a,
       knowledge := map (sentence_mark_safes (fset_of_list (x # xs))) (knowledge a)\<rparr>"
    by (simp add: mark_safe_def sentence_mark_safes_step comp_def)
  finally show ?case .
qed

lemma fold_mark_mine_any_order:
  "fset_of_list xs = fset_of_list ys \<Longrightarrow> fold mark_mine xs a = fold mark_mine ys a"
  by (simp add: fold_mark_mine)

section \<open>The resolution pass returns only when it finds no pair\<close>

text \<open>
  A sentence is inert when it has no cells and count 0. Resolving \<open>sentence1\<close> with a
  subset that is not inert appends a sentence that is again a subset of \<open>sentence1\<close>,
  different from it and not inert, further down the list the inner loop is iterating;
  resolving it with an inert sentence appends a copy of \<open>sentence1\<close>, which the outer
  loop reaches later and resolves with the same inert sentence again.
\<close>

lemma new_sentence_pair:
  assumes "subset_pair s1 s2" and "\<not> (cells s2 = {||} \<and> count s2 = 0)"
  shows "subset_pair s1 (new_sentence s1 s2)"
    and "\<not> (cells (new_sentence s1 s2) = {||} \<and> count (new_sentence s1 s2) = 0)"
proof -
  from assms(1) have ne: "s2 \<noteq> s1" and sub: "cells s2 |\<subseteq>| cells s1"
    by (simp_all add: subset_pair_def)
  have "new_sentence s1 s2 \<noteq> s1"
  proof (cases "cells s2 = {||}")
    case True
    with assms(2) have "count s2 \<noteq> 0" by simp
    then have "count (new_sentence s1 s2) \<noteq> count s1" by (simp add: new_sentence_def)
    then show ?thesis by auto
  next
    case False
    then obtain x where "x |\<in>| cells s2" by auto
    with sub have "x |\<in>| cells s1" "x |\<notin>| cells (new_sentence s1 s2)"
      by (auto simp: new_sentence_def)
    then show ?thesis by auto
  qed
  then show "subset_pair s1 (new_sentence s1 s2)"
    by (auto simp: subset_pair_def new_sentence_def)
  show "\<not> (cells (new_sentence s1 s2) = {||} \<and> count (new_sentence s1 s2) = 0)"
  proof
    assume "cells (new_sentence s1 s2) = {||} \<and> count (new_sentence s1 s2) = 0"
    then have "cells s1 |-| cells s2 = {||}" "count s1 = count s2"
      by (simp_all add: new_sentence_def)
    with sub have "cells s2 = cells s1" "count s2 = count s1" by auto
    then have "s2 = s1" by simp
    with ne show False by simp
  qed
qed

lemma new_sentence_copy:
  "cells s2 = {||} \<Longrightarrow> count s2 = 0 \<Longrightarrow> new_sentence s1 s2 = s1"
  by (simp add: new_sentence_def)

text \<open>
  What a return of the inner loop from index \<open>j\<close> tells: the list it returns extends
  the list it was given, every subset of \<open>sentence1\<close> it met from \<open>j\<close> on was inert,
  and if it met one, a copy of \<open>sentence1\<close> stands among the appended sentences.
\<close>

definition inert :: "sentence \<Rightarrow> bool" where
  "inert s \<longleftrightarrow> cells s = {||} \<and> count s = 0"

definition inner_post :: "sentence \<Rightarrow> nat \<Rightarrow> sentence list \<Rightarrow> sentence list \<Rightarrow> bool" where
  "inner_post s1 j kb kb' \<longleftrightarrow>
     (\<exists>zs. kb' = kb @ zs) \<and>
     (\<forall>k. j \<le> k \<and> k < length kb \<and> subset_pair s1 (kb ! k) \<longrightarrow>
        inert (kb ! k) \<and> (\<exists>k'. length kb \<le> k' \<and> k' < length kb' \<and> kb' ! k' = s1))"

lemma infer_inner_returns:
  assumes "infer_inner s1 j kb f = Some y"
  shows "inner_post s1 j kb (fst y)"
proof (rule infer_inner.raw_induct [where P = "\<lambda>s1 j kb f y. inner_post s1 j kb (fst y)", OF _ assms])
  fix inner s1 j kb f y
  assume IH: "\<And>s1 j kb f y. inner s1 j kb f = Some y \<Longrightarrow> inner_post s1 j kb (fst y)"
    and body: "(if j < length kb
      then if subset_pair s1 (kb ! j)
           then inner s1 (Suc j) (kb @ [new_sentence s1 (kb ! j)]) True
           else inner s1 (Suc j) kb f
      else Some (kb, f)) = Some y"
  show "inner_post s1 j kb (fst y)"
  proof (cases "j < length kb")
    case False
    with body show ?thesis by (auto simp: inner_post_def)
  next
    case True
    note j = True
    show ?thesis
    proof (cases "subset_pair s1 (kb ! j)")
      case False
      with j body have call: "inner s1 (Suc j) kb f = Some y" by simp
      note ih = IH [OF call, unfolded inner_post_def]
      show ?thesis
        unfolding inner_post_def
      proof (intro conjI allI impI)
        show "\<exists>zs. fst y = kb @ zs" using ih by blast
      next
        fix k assume k: "j \<le> k \<and> k < length kb \<and> subset_pair s1 (kb ! k)"
        with False have "k \<noteq> j" by auto
        with k have "Suc j \<le> k \<and> k < length kb \<and> subset_pair s1 (kb ! k)" by simp
        with ih show "inert (kb ! k)"
          and "\<exists>k'. length kb \<le> k' \<and> k' < length (fst y) \<and> fst y ! k' = s1"
          by blast+
      qed
    next
      case True
      let ?n = "new_sentence s1 (kb ! j)"
      from True j body have call: "inner s1 (Suc j) (kb @ [?n]) True = Some y" by simp
      note ih = IH [OF call, unfolded inner_post_def]
      from ih obtain zs where zs: "fst y = (kb @ [?n]) @ zs" by blast
      have ih2: "\<And>k. Suc j \<le> k \<Longrightarrow> k < Suc (length kb) \<Longrightarrow> subset_pair s1 ((kb @ [?n]) ! k)
          \<Longrightarrow> inert ((kb @ [?n]) ! k) \<and>
              (\<exists>k'. Suc (length kb) \<le> k' \<and> k' < length (fst y) \<and> fst y ! k' = s1)"
        using ih by simp
      have inert_j: "inert (kb ! j)"
      proof (rule ccontr)
        assume "\<not> inert (kb ! j)"
        then have ni: "\<not> (cells (kb ! j) = {||} \<and> count (kb ! j) = 0)" by (simp add: inert_def)
        have "subset_pair s1 ?n" and "\<not> inert ?n"
          using new_sentence_pair [OF True ni] by (simp_all add: inert_def)
        moreover have "inert ((kb @ [?n]) ! length kb)"
          using ih2 [of "length kb"] j \<open>subset_pair s1 ?n\<close> by simp
        ultimately show False by simp
      qed
      then have copy: "?n = s1" by (simp add: inert_def new_sentence_copy)
      show ?thesis
        unfolding inner_post_def
      proof (intro conjI allI impI)
        show "\<exists>zs. fst y = kb @ zs" using zs by simp
      next
        fix k assume k: "j \<le> k \<and> k < length kb \<and> subset_pair s1 (kb ! k)"
        show "inert (kb ! k)"
        proof (cases "k = j")
          case True
          with inert_j show ?thesis by simp
        next
          case False
          with k have "Suc j \<le> k" "k < Suc (length kb)" "subset_pair s1 ((kb @ [?n]) ! k)"
            by (simp_all add: nth_append)
          from ih2 [OF this] k show ?thesis by (simp add: nth_append)
        qed
        have "fst y ! length kb = s1" using zs copy by (simp add: nth_append)
        moreover have "length kb < length (fst y)" using zs by simp
        ultimately show "\<exists>k'. length kb \<le> k' \<and> k' < length (fst y) \<and> fst y ! k' = s1"
          by blast
      qed
    qed
  qed
qed

text \<open>
  \<open>has_pair\<close>: the knowledge base holds two different sentences, the cells of one a
  subset of the cells of the other. \<open>pair_from i\<close>: the superset of such a pair stands at
  index \<open>i\<close> or later.
\<close>

definition has_pair :: "sentence list \<Rightarrow> bool" where
  "has_pair kb \<longleftrightarrow> (\<exists>s1 \<in> set kb. \<exists>s2 \<in> set kb. subset_pair s1 s2)"

definition pair_from :: "nat \<Rightarrow> sentence list \<Rightarrow> bool" where
  "pair_from i kb \<longleftrightarrow>
     (\<exists>k e. i \<le> k \<and> k < length kb \<and> e < length kb \<and> subset_pair (kb ! k) (kb ! e))"

lemma has_pair_pair_from: "has_pair kb \<longleftrightarrow> pair_from 0 kb"
proof
  assume "has_pair kb"
  then obtain s1 s2 where "s1 \<in> set kb" "s2 \<in> set kb" "subset_pair s1 s2"
    by (auto simp: has_pair_def)
  then show "pair_from 0 kb"
    unfolding pair_from_def in_set_conv_nth by auto
next
  assume "pair_from 0 kb"
  then obtain k e where "k < length kb" "e < length kb" "subset_pair (kb ! k) (kb ! e)"
    by (auto simp: pair_from_def)
  then have "kb ! k \<in> set kb" "kb ! e \<in> set kb" "subset_pair (kb ! k) (kb ! e)"
    by simp_all
  then show "has_pair kb" unfolding has_pair_def by blast
qed

text \<open>If the outer loop returns from index \<open>i\<close>, no sentence at index \<open>i\<close> or later
  had a subset in the list.\<close>

lemma infer_outer_returns:
  assumes "infer_outer i kb f cs ch = Some y"
  shows "\<not> pair_from i kb"
proof (rule infer_outer.raw_induct [where P = "\<lambda>i kb f cs ch y. \<not> pair_from i kb", OF _ assms])
  fix outer i kb f cs ch y
  assume IH: "\<And>i kb f cs ch y. outer i kb f cs ch = Some y \<Longrightarrow> \<not> pair_from i kb"
    and body: "(if i < length kb
      then case infer_inner (kb ! i) 0 kb f of None \<Rightarrow> None
           | Some (kb', subset_found') \<Rightarrow>
               if subset_found'
               then outer (Suc i) kb' subset_found' (cs @ [kb ! i]) True
               else outer (Suc i) kb' subset_found' cs ch
      else Some (kb, cs, ch)) = Some y"
  show "\<not> pair_from i kb"
  proof (cases "i < length kb")
    case False
    then show ?thesis by (auto simp: pair_from_def)
  next
    case True
    with body obtain kb' f' where inner: "infer_inner (kb ! i) 0 kb f = Some (kb', f')"
      and "(if f' then outer (Suc i) kb' f' (cs @ [kb ! i]) True
            else outer (Suc i) kb' f' cs ch) = Some y"
      by (auto split: option.splits)
    then have "\<exists>cs' ch'. outer (Suc i) kb' f' cs' ch' = Some y" by (cases f') auto
    then have no: "\<not> pair_from (Suc i) kb'" using IH by blast
    from infer_inner_returns [OF inner] have post: "inner_post (kb ! i) 0 kb kb'" by simp
    then obtain zs where zs: "kb' = kb @ zs" by (auto simp: inner_post_def)
    show ?thesis
    proof
      assume "pair_from i kb"
      then obtain k e where k: "i \<le> k" "k < length kb" and e: "e < length kb"
        and pr: "subset_pair (kb ! k) (kb ! e)"
        by (auto simp: pair_from_def)
      show False
      proof (cases "k = i")
        case False
        with k have "Suc i \<le> k" by simp
        moreover have "k < length kb'" "e < length kb'" using k e zs by simp_all
        moreover have "subset_pair (kb' ! k) (kb' ! e)" using pr k e zs by (simp add: nth_append)
        ultimately have "pair_from (Suc i) kb'" unfolding pair_from_def by blast
        with no show False ..
      next
        case True
        with pr e post obtain k' where k': "length kb \<le> k'" "k' < length kb'" "kb' ! k' = kb ! i"
          unfolding inner_post_def by blast
        have "Suc i \<le> k'" using k' k True by simp
        moreover have "e < length kb'" using e zs by simp
        moreover have "subset_pair (kb' ! k') (kb' ! e)"
          using pr True k' e zs by (simp add: nth_append)
        ultimately have "pair_from (Suc i) kb'" using k' unfolding pair_from_def by blast
        with no show False ..
      qed
    qed
  qed
qed

text \<open>Where there is no pair, both loops run through the list and leave it as it is.\<close>

lemma infer_inner_no_pair:
  "(\<And>k. j \<le> k \<Longrightarrow> k < length kb \<Longrightarrow> \<not> subset_pair s1 (kb ! k))
     \<Longrightarrow> infer_inner s1 j kb f = Some (kb, f)"
proof (induction "length kb - j" arbitrary: j)
  case 0
  then show ?case by (subst infer_inner.simps) simp
next
  case (Suc n)
  then have j: "j < length kb" and n: "n = length kb - Suc j" by simp_all
  have "\<not> subset_pair s1 (kb ! j)" using Suc.prems j by simp
  moreover have "infer_inner s1 (Suc j) kb f = Some (kb, f)"
    using Suc.hyps(1) [OF n] Suc.prems by simp
  ultimately show ?case using j by (subst infer_inner.simps) simp
qed

lemma infer_outer_no_pair:
  "\<not> pair_from 0 kb \<Longrightarrow> infer_outer i kb False cs ch = Some (kb, cs, ch)"
proof (induction "length kb - i" arbitrary: i)
  case 0
  then show ?case by (subst infer_outer.simps) simp
next
  case (Suc n)
  then have i: "i < length kb" and n: "n = length kb - Suc i" by simp_all
  have "infer_inner (kb ! i) 0 kb False = Some (kb, False)"
  proof (rule infer_inner_no_pair)
    fix k assume "k < length kb"
    with Suc.prems i show "\<not> subset_pair (kb ! i) (kb ! k)"
      unfolding pair_from_def by blast
  qed
  moreover have "infer_outer (Suc i) kb False cs ch = Some (kb, cs, ch)"
    using Suc.hyps(1) [OF n] Suc.prems by simp
  ultimately show ?case using i by (subst infer_outer.simps) simp
qed

lemma infer_outer_has_pair: "has_pair kb \<Longrightarrow> infer_outer 0 kb f cs ch = None"
  using infer_outer_returns [of 0 kb f cs ch]
  by (cases "infer_outer 0 kb f cs ch") (auto simp: has_pair_pair_from)

text \<open>
  So a resolution pass either does not return or changes nothing, and the recursion of
  the two phases has closed forms: \<^verbatim>\<open>mark_cells(True)\<close> runs its marking loop once and
  returns the state the loop leaves, unless the loop marked a cell and left a pair in
  the knowledge base.
\<close>

lemma infer_pass_eq:
  "infer_pass a = (if has_pair (knowledge a) then None else Some (a, False))"
  by (simp add: infer_pass_def infer_outer_has_pair infer_outer_no_pair has_pair_pair_from [symmetric])

lemma infer_knowledge_eq:
  "infer_knowledge changed a =
     (if changed \<and> has_pair (knowledge a) then None else Some a)"
  unfolding infer_knowledge_def
  by (subst engine.simps, simp add: infer_pass_eq) (subst engine.simps, simp)

lemma mark_cells_eq:
  "mark_cells changed a =
     (if \<not> changed then Some a
      else infer_knowledge (snd (mark_cells_loop 0 (a, False))) (fst (mark_cells_loop 0 (a, False))))"
  unfolding mark_cells_def infer_knowledge_def
  by (subst engine.simps) simp

text \<open>
  With the two closed forms as code equations, a call of \<^verbatim>\<open>add_knowledge\<close> on a
  concrete agent is evaluated by the simplifier, also when the call does not return.
\<close>

declare mark_cells_eq [code] infer_knowledge_eq [code]

lemma add_knowledge_eq:
  "add_knowledge a c n =
     (if snd (mark_cells_loop 0 (add_sentence a c n, False)) \<and>
         has_pair (knowledge (fst (mark_cells_loop 0 (add_sentence a c n, False))))
      then None
      else Some (fst (mark_cells_loop 0 (add_sentence a c n, False))))"
  by (simp add: add_knowledge_def mark_cells_eq infer_knowledge_eq)

lemma infer_pass_returns:
  "infer_pass a = Some (a', changed) \<longleftrightarrow> \<not> has_pair (knowledge a) \<and> a' = a \<and> \<not> changed"
  by (auto simp: infer_pass_eq)

section \<open>Termination of \<^verbatim>\<open>add_knowledge\<close>\<close>

text \<open>
  The game on a 3 x 3 board with its one mine at (2, 2): the cell (1, 1) is revealed with
  count 1, then the corner (0, 0) with count 0. The second call marks (0, 1) and (1, 0)
  safe, which empties the new sentence, and enters the resolution pass with the
  knowledge base below: the empty sentence is a subset of the other one.
\<close>

lemma add_knowledge_diverges_state:
  "mark_cells_loop 0 (add_sentence
     \<lparr>height = 3, width = 3, moves_made = {|(1, 1)|}, mines = {||}, safes = {|(1, 1)|},
       knowledge = [\<lparr>cells = {|(0, 0), (0, 1), (0, 2), (1, 0), (1, 2), (2, 0), (2, 1), (2, 2)|},
                     count = 1\<rparr>]\<rparr> (0, 0) 0, False) =
   (\<lparr>height = 3, width = 3, moves_made = {|(0, 0), (1, 1)|}, mines = {||},
      safes = {|(0, 0), (0, 1), (1, 0), (1, 1)|},
      knowledge = [\<lparr>cells = {|(0, 2), (1, 2), (2, 0), (2, 1), (2, 2)|}, count = 1\<rparr>,
                   \<lparr>cells = {||}, count = 0\<rparr>]\<rparr>, True)"
  by code_simp

text \<open>
  Claim C1 (every call of \<^verbatim>\<open>add_knowledge\<close> on a reachable agent terminates) fails
  on the code: on the fresh 3 x 3 agent the first call returns the state shown, and the
  second call, on that state, does not return.
\<close>

theorem add_knowledge_diverges:
  "add_knowledge (new_ai 3 3) (1, 1) 1 =
     Some \<lparr>height = 3, width = 3, moves_made = {|(1, 1)|}, mines = {||}, safes = {|(1, 1)|},
       knowledge = [\<lparr>cells = {|(0, 0), (0, 1), (0, 2), (1, 0), (1, 2), (2, 0), (2, 1), (2, 2)|},
                     count = 1\<rparr>]\<rparr> \<and>
   add_knowledge
     \<lparr>height = 3, width = 3, moves_made = {|(1, 1)|}, mines = {||}, safes = {|(1, 1)|},
       knowledge = [\<lparr>cells = {|(0, 0), (0, 1), (0, 2), (1, 0), (1, 2), (2, 0), (2, 1), (2, 2)|},
                     count = 1\<rparr>]\<rparr>
     (0, 0) 0 = None"
  by code_simp

section \<open>The resolution pass and the removal of supersets\<close>

text \<open>
  Claim C2 (a resolution pass removes exactly the sentences that served as a superset,
  each by one first-match removal) fails on the code: when the knowledge base holds a
  pair of different sentences, one's cells a subset of the other's, the two loops of the
  pass do not return, so the removal loop after them is never run and the superset
  stays.
\<close>

theorem superset_never_removed:
  "has_pair (knowledge a) \<Longrightarrow> infer_pass a = None \<and> infer_knowledge True a = None"
  by (simp add: infer_pass_eq infer_knowledge_eq)

theorem superset_never_removed_witness:
  "has_pair (knowledge ((new_ai 3 3)\<lparr>knowledge :=
       [\<lparr>cells = {|(0, 2), (1, 2)|}, count = 1\<rparr>, \<lparr>cells = {||}, count = 0\<rparr>]\<rparr>)) \<and>
   infer_pass ((new_ai 3 3)\<lparr>knowledge :=
       [\<lparr>cells = {|(0, 2), (1, 2)|}, count = 1\<rparr>, \<lparr>cells = {||}, count = 0\<rparr>]\<rparr>) = None \<and>
   infer_knowledge True ((new_ai 3 3)\<lparr>knowledge :=
       [\<lparr>cells = {|(0, 2), (1, 2)|}, count = 1\<rparr>, \<lparr>cells = {||}, count = 0\<rparr>]\<rparr>) = None"
proof -
  have h: "has_pair (knowledge ((new_ai 3 3)\<lparr>knowledge :=
       [\<lparr>cells = {|(0, 2), (1, 2)|}, count = 1\<rparr>, \<lparr>cells = {||}, count = 0\<rparr>]\<rparr>))"
    by code_simp
  from superset_never_removed [OF h] h show ?thesis by simp
qed

text \<open>The removal loop, where it runs, deletes the first sentence of the list that is
  equal to the registered one and no other.\<close>

lemma remove_changed_first:
  "s \<notin> set xs \<Longrightarrow> remove_changed s (xs @ s # ys) = xs @ ys"
  by (simp add: remove_changed_def remove1_append)

text \<open>
  Once \<^verbatim>\<open>subset_found\<close> is true it stays true: the outer loop registers the next
  \<^verbatim>\<open>sentence1\<close> as changed also when the inner loop found no subset of it.
\<close>

lemma subset_found_carried:
  assumes "\<And>k. k < length kb \<Longrightarrow> \<not> subset_pair (kb ! i) (kb ! k)" and "i < length kb"
  shows "infer_outer i kb True cs ch = infer_outer (Suc i) kb True (cs @ [kb ! i]) True"
proof -
  have "infer_inner (kb ! i) 0 kb True = Some (kb, True)"
    by (rule infer_inner_no_pair) (simp add: assms(1))
  then show ?thesis using assms(2) by (subst infer_outer.simps) simp
qed

text \<open>So on the list \<open>[{(0, 2), (1, 2)} = 1, {} = 0, {(0, 2), (1, 2)} = 1]\<close> that the first
  iteration of the outer loop leaves, the second iteration registers the empty
  sentence, which has no subset in the list.\<close>

lemma subset_found_carried_example:
  "infer_outer 1 [\<lparr>cells = {|(0, 2), (1, 2)|}, count = 1\<rparr>, \<lparr>cells = {||}, count = 0\<rparr>,
       \<lparr>cells = {|(0, 2), (1, 2)|}, count = 1\<rparr>] True
     [\<lparr>cells = {|(0, 2), (1, 2)|}, count = 1\<rparr>] True =
   infer_outer 2 [\<lparr>cells = {|(0, 2), (1, 2)|}, count = 1\<rparr>, \<lparr>cells = {||}, count = 0\<rparr>,
       \<lparr>cells = {|(0, 2), (1, 2)|}, count = 1\<rparr>] True
     [\<lparr>cells = {|(0, 2), (1, 2)|}, count = 1\<rparr>, \<lparr>cells = {||}, count = 0\<rparr>] True"
proof -
  let ?kb = "[\<lparr>cells = {|(0, 2), (1, 2)|}, count = 1\<rparr>, \<lparr>cells = {||}, count = 0\<rparr>,
       \<lparr>cells = {|(0::int, 2::int), (1, 2)|}, count = 1\<rparr>]"
  have "\<not> subset_pair (?kb ! 1) (?kb ! k)" if "k < length ?kb" for k
  proof -
    from that have "k = 0 \<or> k = 1 \<or> k = 2" by auto
    then show ?thesis by (auto simp: subset_pair_def)
  qed
  from subset_found_carried [of ?kb 1, OF this] show ?thesis
    by (simp add: eval_nat_numeral)
qed

section \<open>The subset resolution example\<close>

text \<open>
  The first four steps of the inner loop for \<open>sentence1 = A\<close> on the knowledge base
  \<open>[A, B]\<close> of the example: every sentence it appends is a subset of \<open>A\<close> that the
  loop resolves in turn.
\<close>

lemma infer_inner_example:
  "infer_inner \<lparr>cells = {|(0, 0), (0, 1), (0, 2)|}, count = 1\<rparr> 0
     [\<lparr>cells = {|(0, 0), (0, 1), (0, 2)|}, count = 1\<rparr>, \<lparr>cells = {|(0, 0), (0, 1)|}, count = 1\<rparr>]
     False =
   infer_inner \<lparr>cells = {|(0, 0), (0, 1), (0, 2)|}, count = 1\<rparr> 4
     [\<lparr>cells = {|(0, 0), (0, 1), (0, 2)|}, count = 1\<rparr>, \<lparr>cells = {|(0, 0), (0, 1)|}, count = 1\<rparr>,
      \<lparr>cells = {|(0, 2)|}, count = 0\<rparr>, \<lparr>cells = {|(0, 0), (0, 1)|}, count = 1\<rparr>,
      \<lparr>cells = {|(0, 2)|}, count = 0\<rparr>]
     True"
proof -
  let ?A = "\<lparr>cells = {|(0, 0), (0, 1), (0, 2)|}, count = 1\<rparr>"
  let ?B = "\<lparr>cells = {|(0, 0), (0, 1)|}, count = 1\<rparr>"
  have AB: "new_sentence ?A ?B = \<lparr>cells = {|(0, 2)|}, count = 0\<rparr>" by code_simp
  have AC: "new_sentence ?A \<lparr>cells = {|(0, 2)|}, count = 0\<rparr> = ?B" by code_simp
  have pB: "subset_pair ?A ?B" by code_simp
  have pC: "subset_pair ?A \<lparr>cells = {|(0, 2)|}, count = 0\<rparr>" by code_simp
  have pA: "\<not> subset_pair ?A ?A" by (simp add: subset_pair_def)
  show ?thesis
    apply (subst infer_inner.simps, simp add: pA)
    apply (subst infer_inner.simps, simp add: pB AB)
    apply (subst infer_inner.simps, simp add: pC AC)
    apply (subst infer_inner.simps, simp add: pB AB eval_nat_numeral)
    done
qed

text \<open>
  Claim C3 (from the knowledge base \<open>[A, B]\<close> the engine derives \<open>{(0, 2)} = 0\<close>, marks
  (0, 2) safe and removes \<open>A\<close>) fails on the code: \<^verbatim>\<open>infer_knowledge(True)\<close> does not
  return, and \<^verbatim>\<open>mark_cells(True)\<close> finds nothing to mark, skips the resolution and
  returns the agent as it was.
\<close>

theorem resolution_example:
  "infer_knowledge True
     ((new_ai 3 3)\<lparr>knowledge := [\<lparr>cells = {|(0, 0), (0, 1), (0, 2)|}, count = 1\<rparr>,
                                  \<lparr>cells = {|(0, 0), (0, 1)|}, count = 1\<rparr>]\<rparr>) = None \<and>
   mark_cells True
     ((new_ai 3 3)\<lparr>knowledge := [\<lparr>cells = {|(0, 0), (0, 1), (0, 2)|}, count = 1\<rparr>,
                                  \<lparr>cells = {|(0, 0), (0, 1)|}, count = 1\<rparr>]\<rparr>) =
     Some ((new_ai 3 3)\<lparr>knowledge := [\<lparr>cells = {|(0, 0), (0, 1), (0, 2)|}, count = 1\<rparr>,
                                  \<lparr>cells = {|(0, 0), (0, 1)|}, count = 1\<rparr>]\<rparr>)"
  by code_simp

section \<open>The scenario on the 3 x 3 board\<close>

text \<open>
  Claim C4 (after \<^verbatim>\<open>add_knowledge((1, 1), 1)\<close> and \<^verbatim>\<open>add_knowledge((0, 1), 1)\<close> on a
  fresh 3 x 3 agent, (0, 0) is in \<^verbatim>\<open>mines\<close>) fails on the code: both calls return and
  (0, 0) is not in \<^verbatim>\<open>mines\<close>.
\<close>

theorem scenario_3x3_counterexample:
  "\<exists>a1 a2. add_knowledge (new_ai 3 3) (1, 1) 1 = Some a1 \<and> add_knowledge a1 (0, 1) 1 = Some a2 \<and>
     (0, 0) |\<notin>| mines a2"
proof -
  let ?a1 = "\<lparr>height = 3, width = 3, moves_made = {|(1, 1)|}, mines = {||}, safes = {|(1, 1)|},
       knowledge = [\<lparr>cells = {|(0, 0), (0, 1), (0, 2), (1, 0), (1, 2), (2, 0), (2, 1), (2, 2)|},
                     count = 1\<rparr>]\<rparr>"
  have 1: "add_knowledge (new_ai 3 3) (1, 1) 1 = Some ?a1" by code_simp
  have 2: "(0, 0) |\<notin>| mines (the (add_knowledge ?a1 (0, 1) 1))" by code_simp
  have 3: "add_knowledge ?a1 (0, 1) 1 \<noteq> None" by code_simp
  from 1 2 3 show ?thesis by auto
qed

text \<open>
  The states the two calls return. The second call marks no cell, so
  \<^verbatim>\<open>mark_cells\<close> passes \<^verbatim>\<open>changed = False\<close> and \<^verbatim>\<open>infer_knowledge\<close> returns at
  once: the second sentence is a subset of the first, and the pair is left unresolved.
\<close>

lemma scenario_3x3_state:
  "add_knowledge (new_ai 3 3) (1, 1) 1 =
     Some \<lparr>height = 3, width = 3, moves_made = {|(1, 1)|}, mines = {||}, safes = {|(1, 1)|},
       knowledge = [\<lparr>cells = {|(0, 0), (0, 1), (0, 2), (1, 0), (1, 2), (2, 0), (2, 1), (2, 2)|},
                     count = 1\<rparr>]\<rparr> \<and>
   add_knowledge
     \<lparr>height = 3, width = 3, moves_made = {|(1, 1)|}, mines = {||}, safes = {|(1, 1)|},
       knowledge = [\<lparr>cells = {|(0, 0), (0, 1), (0, 2), (1, 0), (1, 2), (2, 0), (2, 1), (2, 2)|},
                     count = 1\<rparr>]\<rparr>
     (0, 1) 1 =
     Some \<lparr>height = 3, width = 3, moves_made = {|(0, 1), (1, 1)|}, mines = {||},
       safes = {|(0, 1), (1, 1)|},
       knowledge = [\<lparr>cells = {|(0, 0), (0, 2), (1, 0), (1, 2), (2, 0), (2, 1), (2, 2)|}, count = 1\<rparr>,
                    \<lparr>cells = {|(0, 0), (0, 2), (1, 0), (1, 2)|}, count = 1\<rparr>]\<rparr>"
  by code_simp

text \<open>
  Claim C4 as amended: the two calls return, and after them (0, 0) is not in
  \<^verbatim>\<open>mines\<close>: \<^verbatim>\<open>mines\<close> is empty, and \<^verbatim>\<open>moves_made\<close> holds the two revealed cells.
  The cells (0, 0), (0, 2), (1, 0) and (1, 2) all border (0, 1), and the two clues do not
  tell which of them is the mine.
\<close>

theorem scenario_3x3_mines_empty:
  "\<exists>a1 a2. add_knowledge (new_ai 3 3) (1, 1) 1 = Some a1 \<and> add_knowledge a1 (0, 1) 1 = Some a2 \<and>
     mines a2 = {||} \<and> moves_made a2 = {|(0, 1), (1, 1)|}"
proof -
  let ?a1 = "\<lparr>height = 3, width = 3, moves_made = {|(1, 1)|}, mines = {||}, safes = {|(1, 1)|},
       knowledge = [\<lparr>cells = {|(0, 0), (0, 1), (0, 2), (1, 0), (1, 2), (2, 0), (2, 1), (2, 2)|},
                     count = 1\<rparr>]\<rparr>"
  let ?a2 = "\<lparr>height = 3, width = 3, moves_made = {|(0, 1), (1, 1)|}, mines = {||},
       safes = {|(0, 1), (1, 1)|},
       knowledge = [\<lparr>cells = {|(0, 0), (0, 2), (1, 0), (1, 2), (2, 0), (2, 1), (2, 2)|}, count = 1\<rparr>,
                    \<lparr>cells = {|(0, 0), (0, 2), (1, 0), (1, 2)|}, count = 1\<rparr>]\<rparr>"
  have "add_knowledge (new_ai 3 3) (1, 1) 1 = Some ?a1 \<and> add_knowledge ?a1 (0, 1) 1 = Some ?a2"
    by (rule scenario_3x3_state)
  moreover have "mines ?a2 = {||} \<and> moves_made ?a2 = {|(0, 1), (1, 1)|}" by simp
  ultimately show ?thesis by blast
qed

section \<open>The new sentence of \<^verbatim>\<open>add_knowledge\<close>\<close>

lemma set_nearby_cells:
  "set (nearby_cells a c) =
     {(i, j). fst c - 1 \<le> i \<and> i \<le> fst c + 1 \<and> snd c - 1 \<le> j \<and> j \<le> snd c + 1 \<and>
        (i, j) |\<notin>| moves_made a \<and> (i, j) |\<notin>| mines a \<and> (i, j) |\<notin>| safes a \<and>
        0 \<le> i \<and> i < height a \<and> 0 \<le> j \<and> j < width a}"
  by (auto simp: nearby_cells_def split: if_splits)

text \<open>
  Claim C7: \<^verbatim>\<open>add_knowledge(cell, count)\<close> calls \<^verbatim>\<open>mark_cells(True)\<close> on a knowledge
  base that is the old one, with the cell marked safe in every sentence, and one
  sentence more. The count of that sentence is the count given, and its cells are the
  cells at most one row and one column away from the cell, other than the cell, on the
  board, and not in \<^verbatim>\<open>moves_made\<close>, \<^verbatim>\<open>mines\<close> or \<^verbatim>\<open>safes\<close> of the agent before the
  call.
\<close>

theorem add_knowledge_new_sentence:
  "add_knowledge a c n = mark_cells True (add_sentence a c n) \<and>
   butlast (knowledge (add_sentence a c n)) = map (sentence_mark_safe c) (knowledge a) \<and>
   count (last (knowledge (add_sentence a c n))) = n \<and>
   fset (cells (last (knowledge (add_sentence a c n)))) =
     {(i, j). fst c - 1 \<le> i \<and> i \<le> fst c + 1 \<and> snd c - 1 \<le> j \<and> j \<le> snd c + 1 \<and>
        (i, j) \<noteq> c \<and> 0 \<le> i \<and> i < height a \<and> 0 \<le> j \<and> j < width a \<and>
        (i, j) |\<notin>| moves_made a \<and> (i, j) |\<notin>| mines a \<and> (i, j) |\<notin>| safes a}"
  by (auto simp: add_knowledge_def add_sentence_def Let_def mark_safe_def set_nearby_cells
      fset_of_list.rep_eq)

section \<open>Marking a mine twice\<close>

text \<open>
  Claim C8: \<^verbatim>\<open>mark_mine\<close> of the agent is idempotent. The second call finds the cell
  in \<^verbatim>\<open>mines\<close> already and in no sentence any more.
\<close>

theorem mark_mine_idempotent: "mark_mine c (mark_mine c a) = mark_mine c a"
proof -
  have "sentence_mark_mine c (sentence_mark_mine c s) = sentence_mark_mine c s" for s
    by (simp add: sentence_mark_mine_def)
  then have "map (sentence_mark_mine c \<circ> sentence_mark_mine c) (knowledge a)
      = map (sentence_mark_mine c) (knowledge a)"
    by (simp add: comp_def)
  then show ?thesis by (simp add: mark_mine_def)
qed

section \<open>The move functions\<close>

text \<open>
  Claim C9: \<^verbatim>\<open>make_safe_move\<close> leaves the agent as it was, whatever the generator
  draws.
\<close>

theorem make_safe_move_frame: "snd (make_safe_move r a) = a"
  by (simp add: make_safe_move_def split: sum.split)

lemma set_board_cells:
  "set (board_cells a) = {(i, j). 0 \<le> i \<and> i < height a \<and> 0 \<le> j \<and> j < width a}"
  by (auto simp: board_cells_def)

text \<open>A cell that \<^verbatim>\<open>make_random_move\<close> returns is on the board and neither a move
  made nor a known mine.\<close>

lemma make_random_move_cell:
  assumes "fst (make_random_move r a) = Inr c"
  shows "c |\<notin>| moves_made a \<and> c |\<notin>| mines a \<and> c \<in> set (board_cells a)"
proof -
  from assms have ne: "random_list a \<noteq> []" and c: "c = random_list a ! (r mod length (random_list a))"
    by (auto simp: make_random_move_def random_choice_def split: if_splits)
  then have "c \<in> set (random_list a)" by simp
  then show ?thesis by (auto simp: random_list_def)
qed

text \<open>It raises exactly when every cell of the board is a move made or a known mine.\<close>

lemma make_random_move_raises:
  "fst (make_random_move r a) = Inl IndexError \<longleftrightarrow>
     (\<forall>c \<in> set (board_cells a). c |\<in>| moves_made a \<or> c |\<in>| mines a)"
  by (auto simp: make_random_move_def random_choice_def random_list_def filter_empty_conv)

text \<open>
  Claim C6 (\<^verbatim>\<open>make_random_move\<close> returns no cell of \<^verbatim>\<open>moves_made\<close> or \<^verbatim>\<open>mines\<close>,
  and returns "no move" when there is no other cell) fails on the code in its second
  half: on the 1 x 1 board, after the one cell is revealed, \<^verbatim>\<open>make_random_move\<close>
  raises \<^verbatim>\<open>IndexError\<close>.
\<close>

theorem make_random_move_no_candidate:
  "add_knowledge (new_ai 1 1) (0, 0) 0 =
     Some \<lparr>height = 1, width = 1, moves_made = {|(0, 0)|}, mines = {||}, safes = {|(0, 0)|},
       knowledge = [\<lparr>cells = {||}, count = 0\<rparr>]\<rparr> \<and>
   fst (make_random_move r
     \<lparr>height = 1, width = 1, moves_made = {|(0, 0)|}, mines = {||}, safes = {|(0, 0)|},
       knowledge = [\<lparr>cells = {||}, count = 0\<rparr>]\<rparr>) = Inl IndexError"
proof -
  have "random_list \<lparr>height = 1, width = 1, moves_made = {|(0, 0)|}, mines = {||}, safes = {|(0, 0)|},
       knowledge = [\<lparr>cells = {||}, count = 0\<rparr>]\<rparr> = []"
    by code_simp
  moreover have "add_knowledge (new_ai 1 1) (0, 0) 0 =
     Some \<lparr>height = 1, width = 1, moves_made = {|(0, 0)|}, mines = {||}, safes = {|(0, 0)|},
       knowledge = [\<lparr>cells = {||}, count = 0\<rparr>]\<rparr>"
    by code_simp
  ultimately show ?thesis by (simp add: make_random_move_def random_choice_def)
qed

section \<open>The three sets only grow\<close>

definition grows :: "ai \<Rightarrow> ai \<Rightarrow> bool" where
  "grows a a' \<longleftrightarrow>
     moves_made a |\<subseteq>| moves_made a' \<and> mines a |\<subseteq>| mines a' \<and> safes a |\<subseteq>| safes a'"

lemma grows_refl [simp]: "grows a a"
  by (simp add: grows_def)

lemma grows_trans: "grows a b \<Longrightarrow> grows b c \<Longrightarrow> grows a c"
  by (auto simp: grows_def)

lemma grows_mark_cells_body: "grows a (fst (mark_cells_body i (a, ch)))"
  by (auto simp: mark_cells_body_def Let_def grows_def fold_mark_mine fold_mark_safe
      split: option.split)

lemma grows_mark_cells_loop: "grows (fst st) (fst (mark_cells_loop i st))"
proof (induction i st rule: mark_cells_loop.induct)
  case (1 i st)
  show ?case
  proof (cases "i < length (knowledge (fst st))")
    case False
    then show ?thesis by (subst mark_cells_loop.simps) simp
  next
    case True
    have "grows (fst st) (fst (mark_cells_body i st))"
      using grows_mark_cells_body [of "fst st" i "snd st"] by simp
    moreover have "grows (fst (mark_cells_body i st)) (fst (mark_cells_loop (Suc i) (mark_cells_body i st)))"
      using "1.IH" True by simp
    ultimately show ?thesis
      using True by (subst mark_cells_loop.simps) (auto intro: grows_trans)
  qed
qed

lemma grows_add_sentence: "grows a (add_sentence a c n)"
  by (auto simp: grows_def add_sentence_def Let_def mark_safe_def)

lemma grows_add_knowledge:
  assumes "add_knowledge a c n = Some a'"
  shows "grows a a'"
proof -
  from assms have "a' = fst (mark_cells_loop 0 (add_sentence a c n, False))"
    by (simp add: add_knowledge_eq split: if_splits)
  then show ?thesis
    using grows_mark_cells_loop [of "(add_sentence a c n, False)" 0] grows_add_sentence [of a c n]
    by (auto intro: grows_trans)
qed

text \<open>
  Claim C10: after \<^verbatim>\<open>mark_mine\<close>, \<^verbatim>\<open>mark_safe\<close>, \<^verbatim>\<open>make_safe_move\<close>,
  \<^verbatim>\<open>make_random_move\<close> (whether it returns a cell or raises) and after every call of
  \<^verbatim>\<open>add_knowledge\<close> that returns, each of \<^verbatim>\<open>moves_made\<close>, \<^verbatim>\<open>mines\<close> and
  \<^verbatim>\<open>safes\<close> contains what it held before. The same holds of the state in which
  \<^verbatim>\<open>add_knowledge\<close> enters the resolution pass, whether it returns from it or not: the
  pass changes the knowledge base only.
\<close>

theorem sets_grow:
  "grows a (mark_mine c a) \<and> grows a (mark_safe c a) \<and>
   grows a (snd (make_safe_move r a)) \<and> grows a (snd (make_random_move r a)) \<and>
   grows a (fst (mark_cells_loop 0 (add_sentence a c n, False))) \<and>
   (\<forall>a'. add_knowledge a c n = Some a' \<longrightarrow> grows a a')"
proof (intro conjI allI impI)
  show "grows a (mark_mine c a)" and "grows a (mark_safe c a)"
    by (auto simp: grows_def mark_mine_def mark_safe_def)
  show "grows a (snd (make_safe_move r a))"
    by (simp add: make_safe_move_def split: sum.split)
  show "grows a (snd (make_random_move r a))"
    by (simp add: make_random_move_def)
  show "grows a (fst (mark_cells_loop 0 (add_sentence a c n, False)))"
    using grows_mark_cells_loop [of "(add_sentence a c n, False)" 0] grows_add_sentence [of a c n]
    by (auto intro: grows_trans)
  show "grows a a'" if "add_knowledge a c n = Some a'" for a'
    using that by (rule grows_add_knowledge)
qed

text \<open>The second call of the game on the 1 x 3 board with its mine at (0, 1): the three
  sets are not empty before it, and it returns.\<close>

theorem sets_grow_witness:
  "add_knowledge
     \<lparr>height = 1, width = 3, moves_made = {|(0, 0)|}, mines = {|(0, 1)|}, safes = {|(0, 0)|},
       knowledge = [\<lparr>cells = {||}, count = 0\<rparr>]\<rparr>
     (0, 2) 1 =
     Some \<lparr>height = 1, width = 3, moves_made = {|(0, 0), (0, 2)|}, mines = {|(0, 1)|},
       safes = {|(0, 0), (0, 2)|},
       knowledge = [\<lparr>cells = {||}, count = 0\<rparr>, \<lparr>cells = {||}, count = 1\<rparr>]\<rparr> \<and>
   grows
     \<lparr>height = 1, width = 3, moves_made = {|(0, 0)|}, mines = {|(0, 1)|}, safes = {|(0, 0)|},
       knowledge = [\<lparr>cells = {||}, count = 0\<rparr>]\<rparr>
     \<lparr>height = 1, width = 3, moves_made = {|(0, 0), (0, 2)|}, mines = {|(0, 1)|},
       safes = {|(0, 0), (0, 2)|},
       knowledge = [\<lparr>cells = {||}, count = 0\<rparr>, \<lparr>cells = {||}, count = 1\<rparr>]\<rparr> \<and>
   moves_made \<lparr>height = 1, width = 3, moves_made = {|(0, 0)|}, mines = {|(0, 1)|}, safes = {|(0, 0)|},
       knowledge = [\<lparr>cells = {||}, count = 0\<rparr>]\<rparr> = {|(0, 0)|} \<and>
   (0, 0) |\<in>| moves_made \<lparr>height = 1, width = 3, moves_made = {|(0, 0), (0, 2)|}, mines = {|(0, 1)|},
       safes = {|(0, 0), (0, 2)|},
       knowledge = [\<lparr>cells = {||}, count = 0\<rparr>, \<lparr>cells = {||}, count = 1\<rparr>]\<rparr> \<and>
   (0, 1) |\<in>| mines \<lparr>height = 1, width = 3, moves_made = {|(0, 0), (0, 2)|}, mines = {|(0, 1)|},
       safes = {|(0, 0), (0, 2)|},
       knowledge = [\<lparr>cells = {||}, count = 0\<rparr>, \<lparr>cells = {||}, count = 1\<rparr>]\<rparr> \<and>
   (0, 0) |\<in>| safes \<lparr>height = 1, width = 3, moves_made = {|(0, 0), (0, 2)|}, mines = {|(0, 1)|},
       safes = {|(0, 0), (0, 2)|},
       knowledge = [\<lparr>cells = {||}, count = 0\<rparr>, \<lparr>cells = {||}, count = 1\<rparr>]\<rparr> \<and>
   grows
     \<lparr>height = 1, width = 3, moves_made = {|(0, 0)|}, mines = {|(0, 1)|}, safes = {|(0, 0)|},
       knowledge = [\<lparr>cells = {||}, count = 0\<rparr>]\<rparr>
     (mark_mine (0, 2) \<lparr>height = 1, width = 3, moves_made = {|(0, 0)|}, mines = {|(0, 1)|}, safes = {|(0, 0)|},
       knowledge = [\<lparr>cells = {||}, count = 0\<rparr>]\<rparr>) \<and>
   grows
     \<lparr>height = 1, width = 3, moves_made = {|(0, 0)|}, mines = {|(0, 1)|}, safes = {|(0, 0)|},
       knowledge = [\<lparr>cells = {||}, count = 0\<rparr>]\<rparr>
     (mark_safe (0, 2) \<lparr>height = 1, width = 3, moves_made = {|(0, 0)|}, mines = {|(0, 1)|}, safes = {|(0, 0)|},
       knowledge = [\<lparr>cells = {||}, count = 0\<rparr>]\<rparr>) \<and>
   grows
     \<lparr>height = 1, width = 3, moves_made = {|(0, 0)|}, mines = {|(0, 1)|}, safes = {|(0, 0)|},
       knowledge = [\<lparr>cells = {||}, count = 0\<rparr>]\<rparr>
     (snd (make_safe_move 0 \<lparr>height = 1, width = 3, moves_made = {|(0, 0)|}, mines = {|(0, 1)|}, safes = {|(0, 0)|},
       knowledge = [\<lparr>cells = {||}, count = 0\<rparr>]\<rparr>)) \<and>
   grows
     \<lparr>height = 1, width = 3, moves_made = {|(0, 0)|}, mines = {|(0, 1)|}, safes = {|(0, 0)|},
       knowledge = [\<lparr>cells = {||}, count = 0\<rparr>]\<rparr>
     (snd (make_random_move 0 \<lparr>height = 1, width = 3, moves_made = {|(0, 0)|}, mines = {|(0, 1)|}, safes = {|(0, 0)|},
       knowledge = [\<lparr>cells = {||}, count = 0\<rparr>]\<rparr>))"
proof -
  let ?a = "\<lparr>height = 1, width = 3, moves_made = {|(0, 0)|}, mines = {|(0, 1)|}, safes = {|(0, 0)|},
       knowledge = [\<lparr>cells = {||}, count = 0\<rparr>]\<rparr>"
  let ?a' = "\<lparr>height = 1, width = 3, moves_made = {|(0, 0), (0, 2)|}, mines = {|(0, 1)|},
       safes = {|(0, 0), (0, 2)|},
       knowledge = [\<lparr>cells = {||}, count = 0\<rparr>, \<lparr>cells = {||}, count = 1\<rparr>]\<rparr>"
  have e: "add_knowledge ?a (0, 2) 1 = Some ?a'"
    by code_simp
  from sets_grow [of ?a "(0, 2)" 0 1] e show ?thesis by simp
qed

section \<open>The count of a sentence and the number of its cells\<close>

text \<open>
  A sentence is sound for a set \<open>M\<close> of mines when its count is the number of its cells
  that are in \<open>M\<close>: what the docstring of \<^verbatim>\<open>Sentence\<close> says a sentence means. A
  sound sentence has its count between 0 and the number of its cells.
\<close>

definition sound :: "cell fset \<Rightarrow> sentence \<Rightarrow> bool" where
  "sound M s \<longleftrightarrow> count s = int (fcard (cells s |\<inter>| M))"

definition in_range :: "sentence \<Rightarrow> bool" where
  "in_range s \<longleftrightarrow> 0 \<le> count s \<and> count s \<le> int (fcard (cells s))"

text \<open>
  Claim C5 (\<open>0 \<le> count \<le> |cells|\<close> for every sentence after any sequence of
  \<^verbatim>\<open>add_knowledge\<close>, \<^verbatim>\<open>mark_mine\<close> and \<^verbatim>\<open>mark_safe\<close>) fails on the code in the
  game on the 1 x 3 board with its one mine at (0, 1), where every count given is the
  board's. (0, 0) is revealed with count 1, which marks (0, 1) a mine and leaves the
  knowledge base sound for the board; then (0, 2) is revealed with count 1. The known
  mine (0, 1) is left out of the cells of the new sentence and the count is kept, where
  \<^verbatim>\<open>Sentence.mark_mine\<close> takes 1 off the count with the cell: the knowledge base ends
  with the sentence \<open>{} = 1\<close>.
\<close>

theorem count_gap:
  "add_knowledge (new_ai 1 3) (0, 0) 1 =
     Some \<lparr>height = 1, width = 3, moves_made = {|(0, 0)|}, mines = {|(0, 1)|}, safes = {|(0, 0)|},
       knowledge = [\<lparr>cells = {||}, count = 0\<rparr>]\<rparr> \<and>
   list_all (sound {|(0, 1)|}) (knowledge
     \<lparr>height = 1, width = 3, moves_made = {|(0, 0)|}, mines = {|(0, 1)|}, safes = {|(0, 0)|},
       knowledge = [\<lparr>cells = {||}, count = 0\<rparr>]\<rparr>) \<and>
   list_all in_range (knowledge
     \<lparr>height = 1, width = 3, moves_made = {|(0, 0)|}, mines = {|(0, 1)|}, safes = {|(0, 0)|},
       knowledge = [\<lparr>cells = {||}, count = 0\<rparr>]\<rparr>) \<and>
   add_knowledge
     \<lparr>height = 1, width = 3, moves_made = {|(0, 0)|}, mines = {|(0, 1)|}, safes = {|(0, 0)|},
       knowledge = [\<lparr>cells = {||}, count = 0\<rparr>]\<rparr> (0, 2) 1 =
     Some \<lparr>height = 1, width = 3, moves_made = {|(0, 0), (0, 2)|}, mines = {|(0, 1)|},
       safes = {|(0, 0), (0, 2)|},
       knowledge = [\<lparr>cells = {||}, count = 0\<rparr>, \<lparr>cells = {||}, count = 1\<rparr>]\<rparr> \<and>
   \<not> list_all in_range (knowledge
     \<lparr>height = 1, width = 3, moves_made = {|(0, 0), (0, 2)|}, mines = {|(0, 1)|},
       safes = {|(0, 0), (0, 2)|},
       knowledge = [\<lparr>cells = {||}, count = 0\<rparr>, \<lparr>cells = {||}, count = 1\<rparr>]\<rparr>)"
  by code_simp

text \<open>
  The agent also believes a caller that marks cells by hand: three cells marked safe one
  after the other leave the sentence \<open>{(0, 1), (1, 0), (1, 1)} = 1\<close> without cells and with
  count 1.
\<close>

lemma marked_safe_example:
  "knowledge (mark_safe (1, 1) (mark_safe (1, 0) (mark_safe (0, 1)
     \<lparr>height = 3, width = 3, moves_made = {|(0, 0)|}, mines = {||}, safes = {|(0, 0)|},
       knowledge = [\<lparr>cells = {|(0, 1), (1, 0), (1, 1)|}, count = 1\<rparr>]\<rparr>))) =
   [\<lparr>cells = {||}, count = 1\<rparr>]"
  by code_simp

text \<open>
  Every other step keeps the knowledge base sound for the mines \<open>M\<close> of the board:
  \<^verbatim>\<open>mark_mine\<close> of a mine, \<^verbatim>\<open>mark_safe\<close> of a cell that is none, and the marking loop
  of \<^verbatim>\<open>mark_cells\<close>, which marks as mines only cells of \<open>M\<close> and as safe only cells
  outside it.
\<close>

lemma sound_in_range: "sound M s \<Longrightarrow> in_range s"
  by (simp add: sound_def in_range_def fcard_mono)

lemma sound_sentence_mark_mine:
  assumes "sound M s" and "c |\<in>| M"
  shows "sound M (sentence_mark_mine c s)"
proof (cases "c |\<in>| cells s")
  case False
  with assms show ?thesis by (simp add: sentence_mark_mine_def)
next
  case True
  have eq: "cells s |\<inter>| M = finsert c ((cells s |-| {|c|}) |\<inter>| M)"
    using True assms(2) by auto
  have "c |\<notin>| (cells s |-| {|c|}) |\<inter>| M" by simp
  then have "fcard (finsert c ((cells s |-| {|c|}) |\<inter>| M)) = Suc (fcard ((cells s |-| {|c|}) |\<inter>| M))"
    by (rule fcard_finsert_disjoint)
  then have "fcard (cells s |\<inter>| M) = Suc (fcard ((cells s |-| {|c|}) |\<inter>| M))"
    by (simp only: eq [symmetric])
  with assms(1) True show ?thesis
    by (simp add: sound_def sentence_mark_mine_def)
qed

lemma sound_sentence_mark_safe:
  assumes "sound M s" and "c |\<notin>| M"
  shows "sound M (sentence_mark_safe c s)"
proof -
  have "(cells s |-| {|c|}) |\<inter>| M = cells s |\<inter>| M" using assms(2) by auto
  with assms(1) show ?thesis by (simp add: sound_def sentence_mark_safe_def)
qed

lemma sound_mark_mine:
  "list_all (sound M) (knowledge a) \<Longrightarrow> c |\<in>| M \<Longrightarrow> list_all (sound M) (knowledge (mark_mine c a))"
  by (simp add: mark_mine_def list_all_iff sound_sentence_mark_mine)

lemma sound_mark_safe:
  "list_all (sound M) (knowledge a) \<Longrightarrow> c |\<notin>| M \<Longrightarrow> list_all (sound M) (knowledge (mark_safe c a))"
  by (simp add: mark_safe_def list_all_iff sound_sentence_mark_safe)

lemma sound_fold_mark_mine:
  "list_all (sound M) (knowledge a) \<Longrightarrow> fset_of_list xs |\<subseteq>| M
     \<Longrightarrow> list_all (sound M) (knowledge (fold mark_mine xs a))"
  by (induction xs arbitrary: a) (simp_all add: sound_mark_mine)

lemma sound_fold_mark_safe:
  "list_all (sound M) (knowledge a) \<Longrightarrow> fset_of_list xs |\<inter>| M = {||}
     \<Longrightarrow> list_all (sound M) (knowledge (fold mark_safe xs a))"
  by (induction xs arbitrary: a) (simp_all add: sound_mark_safe)

lemma known_mines_sound:
  assumes "sound M s" and "known_mines s = Some S"
  shows "S |\<subseteq>| M"
proof -
  from assms have S: "S = cells s" and "fcard (cells s |\<inter>| M) = fcard (cells s)"
    by (auto simp: known_mines_def sound_def split: if_splits)
  then have "card (fset (cells s) \<inter> fset M) = card (fset (cells s))"
    by (simp add: fcard.rep_eq)
  then have "fset (cells s) \<inter> fset M = fset (cells s)"
    by (intro card_subset_eq) auto
  then show ?thesis using S by auto
qed

lemma known_safes_sound:
  assumes "sound M s" and "known_safes s = Some S"
  shows "S |\<inter>| M = {||}"
  using assms by (auto simp: known_safes_def sound_def split: if_splits)

lemma sound_mark_cells_body:
  assumes "list_all (sound M) (knowledge a)" and "i < length (knowledge a)"
  shows "list_all (sound M) (knowledge (fst (mark_cells_body i (a, ch))))"
proof -
  define a1 where "a1 = (case known_mines (knowledge a ! i) of
      None \<Rightarrow> a
    | Some check_mines \<Rightarrow>
        if check_mines \<noteq> {||} then fold mark_mine (sorted_list_of_fset check_mines) a else a)"
  have s: "sound M (knowledge a ! i)" using assms by (simp add: list_all_length)
  have a1: "list_all (sound M) (knowledge a1)"
    using assms(1) known_mines_sound [OF s]
    by (auto simp: a1_def sound_fold_mark_mine split: option.split)
  have len: "length (knowledge a1) = length (knowledge a)"
    by (simp add: a1_def split: option.split)
  then have s1: "sound M (knowledge a1 ! i)" using a1 assms(2) by (simp add: list_all_length)
  have "fst (mark_cells_body i (a, ch)) = (case known_safes (knowledge a1 ! i) of
      None \<Rightarrow> a1
    | Some check_safes \<Rightarrow>
        if check_safes \<noteq> {||} then fold mark_safe (sorted_list_of_fset check_safes) a1 else a1)"
    by (simp add: mark_cells_body_def a1_def split: option.split)
  then show ?thesis
    using a1 known_safes_sound [OF s1]
    by (auto simp: sound_fold_mark_safe split: option.split)
qed

lemma sound_mark_cells_loop:
  "list_all (sound M) (knowledge (fst st))
     \<Longrightarrow> list_all (sound M) (knowledge (fst (mark_cells_loop i st)))"
proof (induction i st rule: mark_cells_loop.induct)
  case (1 i st)
  show ?case
  proof (cases "i < length (knowledge (fst st))")
    case False
    with "1.prems" show ?thesis by (subst mark_cells_loop.simps) simp
  next
    case True
    have "list_all (sound M) (knowledge (fst (mark_cells_body i st)))"
      using sound_mark_cells_body [OF _ True, of M "snd st"] "1.prems" by simp
    then have "list_all (sound M) (knowledge (fst (mark_cells_loop (Suc i) (mark_cells_body i st))))"
      using "1.IH" True by simp
    then show ?thesis using True by (subst mark_cells_loop.simps) simp
  qed
qed

lemma sound_add_sentence:
  assumes "list_all (sound M) (knowledge a)" and "c |\<notin>| M"
    and "sound M (last (knowledge (add_sentence a c n)))"
  shows "list_all (sound M) (knowledge (add_sentence a c n))"
  using assms
  by (simp add: add_sentence_def Let_def mark_safe_def list_all_iff sound_sentence_mark_safe)

text \<open>
  So \<^verbatim>\<open>add_knowledge\<close> reaches the resolution pass, and returns if it does, with a
  sound knowledge base whenever the sentence it appended is sound: the sentence built in
  step 3 is the one place where a game that tells the truth can leave the range.
\<close>

lemma sound_before_resolution:
  assumes "list_all (sound M) (knowledge a)" and "c |\<notin>| M"
    and "sound M (last (knowledge (add_sentence a c n)))"
  shows "list_all (sound M) (knowledge (fst (mark_cells_loop 0 (add_sentence a c n, False))))"
  using sound_mark_cells_loop [of M "(add_sentence a c n, False)" 0]
    sound_add_sentence [OF assms] by simp

lemma sound_add_knowledge:
  assumes "list_all (sound M) (knowledge a)" and "c |\<notin>| M"
    and "sound M (last (knowledge (add_sentence a c n)))"
    and "add_knowledge a c n = Some a'"
  shows "list_all (\<lambda>s. sound M s \<and> in_range s) (knowledge a')"
proof -
  from assms(4) have "a' = fst (mark_cells_loop 0 (add_sentence a c n, False))"
    by (simp add: add_knowledge_eq split: if_splits)
  then have "list_all (sound M) (knowledge a')"
    using sound_before_resolution [OF assms(1-3)] by simp
  then show ?thesis
    by (auto simp: list_all_iff intro: sound_in_range)
qed

end
